theory Spec2Isabelle
  imports Main "HOL-Library.Char_ord" "HOL-Library.List_Lexorder" "HOL-Library.Word"
begin

section \<open>flatten-to-key-value: the values the function receives\<close>

text \<open>
  The input of \<^verbatim>\<open>flattenToKeyValue\<close> has the TypeScript type \<^verbatim>\<open>unknown\<close>. The code
  inspects a value only through \<^verbatim>\<open>typeof\<close>, \<^verbatim>\<open>=== null\<close>, \<^verbatim>\<open>instanceof Date\<close>,
  \<^verbatim>\<open>Array.isArray\<close>, \<^verbatim>\<open>Object.entries\<close>, \<^verbatim>\<open>String\<close>, \<^verbatim>\<open>toISOString\<close> and
  \<^verbatim>\<open>JSON.stringify\<close>, so a value is modelled by what these observe.

  A number is either an integer from \<open>- 2^53\<close> to \<open>2^53 - 1\<close>, the signed value of a word
  of 54 bits, where \<^verbatim>\<open>String\<close> gives the exact decimal numeral, or any other number, given
  by the text \<^verbatim>\<open>String\<close> returns for it (\<^verbatim>\<open>1.5\<close>, \<^verbatim>\<open>NaN\<close>, \<^verbatim>\<open>Infinity\<close>,
  \<^verbatim>\<open>1152921504606847000\<close> for \<open>2^60\<close>, \<^verbatim>\<open>1e+21\<close>).
\<close>

datatype number = Integer "54 word" | OtherNumber string

text \<open>
  \<^verbatim>\<open>JSON.stringify(v)\<close> on a value that is a function or a symbol: it returns
  \<^verbatim>\<open>undefined\<close> (every symbol, and every function without a \<^verbatim>\<open>toJSON\<close> method), or the
  text of what \<^verbatim>\<open>toJSON\<close> returned, or it throws (a throwing \<^verbatim>\<open>toJSON\<close>, or one returning
  a cyclic structure or a BigInt).
\<close>

datatype json_result = JsonText string | JsonUndefined | JsonThrows

text \<open>
  The values without entries to descend into. A \<^verbatim>\<open>Date\<close> is given by what
  \<^verbatim>\<open>toISOString\<close> does on it: \<open>Some t\<close> (the ISO text) for a valid date, \<open>None\<close> for an invalid one
  (\<^verbatim>\<open>new Date(NaN)\<close>), where \<^verbatim>\<open>toISOString\<close> throws \<^verbatim>\<open>RangeError\<close>. \<open>JOpaque r t\<close> is a
  function or a symbol: \<open>r\<close> is what \<^verbatim>\<open>JSON.stringify\<close> does on it and \<open>t\<close> the text
  \<^verbatim>\<open>String\<close> returns.
\<close>

datatype leaf =
    JNull
  | JUndefined
  | JBool bool
  | JNumber number
  | JBigInt int
  | JString string
  | JDate "string option"
  | JOpaque json_result string

text \<open>
  \<open>JObject\<close> is any other non-null object that is not an array (object literals, class
  instances, \<^verbatim>\<open>Map\<close>, boxed primitives): the list is \<^verbatim>\<open>Object.entries\<close> of it, in the
  order \<^verbatim>\<open>Object.entries\<close> returns them. \<open>JArray\<close> is an array, the list of its elements.
  Arrays with holes, and objects whose getters or proxy traps run code, are not modelled. A
  value is a finite tree, so object graphs with cycles are not among the inputs. Strings are
  lists of characters compared by their codes, as JavaScript compares code units.
\<close>

datatype jsval =
    Leaf leaf
  | JArray "jsval list"
  | JObject "(string \<times> jsval) list"

datatype error = RangeError

record FlattenOptions =
  delimiter :: "string option"
  joiner :: "string option"
  includeNullUndefined :: "bool option"
  dedupeArrayValues :: "bool option"
  sortKeys :: "bool option"

text \<open>The default argument \<^verbatim>\<open>opts = {}\<close>: every field absent.\<close>

definition no_options :: FlattenOptions where
  "no_options = \<lparr>delimiter = None, joiner = None, includeNullUndefined = None,
     dedupeArrayValues = None, sortKeys = None\<rparr>"

text \<open>Lines 45 to 48: \<^verbatim>\<open>opts.x ?? default\<close>.\<close>

definition the_delimiter :: "FlattenOptions \<Rightarrow> string" where
  "the_delimiter opts = (case delimiter opts of None \<Rightarrow> ''.'' | Some d \<Rightarrow> d)"

definition the_joiner :: "FlattenOptions \<Rightarrow> string" where
  "the_joiner opts = (case joiner opts of None \<Rightarrow> '','' | Some j \<Rightarrow> j)"

definition the_includeNullUndefined :: "FlattenOptions \<Rightarrow> bool" where
  "the_includeNullUndefined opts = (case includeNullUndefined opts of None \<Rightarrow> False | Some b \<Rightarrow> b)"

definition dedupe :: "FlattenOptions \<Rightarrow> bool" where
  "dedupe opts = (case dedupeArrayValues opts of None \<Rightarrow> False | Some b \<Rightarrow> b)"

section \<open>Text of primitive values: \<^verbatim>\<open>String(v)\<close>\<close>

text \<open>
  The decimal numeral of an integer: \<^verbatim>\<open>String\<close> of a BigInt of any size, and of a number in
  the range above.
\<close>

definition digit :: "nat \<Rightarrow> char" where
  "digit d = ''0123456789'' ! d"

fun decimal :: "nat \<Rightarrow> string" where
  "decimal n = (if n < 10 then [digit n] else decimal (n div 10) @ [digit (n mod 10)])"

declare decimal.simps [simp del]

definition String_int :: "int \<Rightarrow> string" where
  "String_int i = (if i < 0 then CHR ''-'' # decimal (nat (- i)) else decimal (nat i))"

fun String_number :: "number \<Rightarrow> string" where
  "String_number (Integer i) = String_int (sint i)"
| "String_number (OtherNumber t) = t"

section \<open>The accumulator: a \<^verbatim>\<open>Map<string, string[]>\<close> in insertion order\<close>

type_synonym accumulator = "(string \<times> string list) list"

text \<open>\<^verbatim>\<open>list.push(val)\<close> on the array stored under \<open>key\<close>: the entry keeps its place.\<close>

fun push :: "accumulator \<Rightarrow> string \<Rightarrow> string \<Rightarrow> accumulator" where
  "push [] key val = []"
| "push ((k, list) # rest) key val =
     (if k = key then (k, list @ [val]) # rest else (k, list) # push rest key val)"

text \<open>Lines 53 to 61.\<close>

definition add :: "FlattenOptions \<Rightarrow> accumulator \<Rightarrow> string \<Rightarrow> string \<Rightarrow> accumulator" where
  "add opts acc key val =
     (if key = [] then acc
      else case map_of acc key of
             Some list \<Rightarrow> if \<not> dedupe opts \<or> val \<notin> set list then push acc key val else acc
           | None \<Rightarrow> acc @ [(key, [val])])"

section \<open>Classification and stringification\<close>

text \<open>Lines 63 to 64. A \<^verbatim>\<open>Date\<close> is an object too; \<open>walk\<close> tests for dates first.\<close>

fun isPlainObject :: "jsval \<Rightarrow> bool" where
  "isPlainObject (JObject fs) = True"
| "isPlainObject (Leaf (JDate d)) = True"
| "isPlainObject v = False"

text \<open>Lines 66 to 71: \<^verbatim>\<open>undefined\<close> is not among the cases.\<close>

fun isPrimitive :: "jsval \<Rightarrow> bool" where
  "isPrimitive (Leaf JNull) = True"
| "isPrimitive (Leaf (JString s)) = True"
| "isPrimitive (Leaf (JNumber n)) = True"
| "isPrimitive (Leaf (JBool b)) = True"
| "isPrimitive (Leaf (JBigInt i)) = True"
| "isPrimitive v = False"

fun isDate :: "jsval \<Rightarrow> bool" where
  "isDate (Leaf (JDate d)) = True"
| "isDate v = False"

text \<open>
  Lines 73 to 84. \<open>Inl RangeError\<close> is the exception of \<^verbatim>\<open>toISOString\<close>, \<open>Inr None\<close> the
  result \<^verbatim>\<open>undefined\<close>. \<open>walk\<close> calls \<^verbatim>\<open>toStr\<close> only on values that are neither arrays nor
  other objects, so the \<^verbatim>\<open>JSON.stringify\<close> branch is reached by functions and symbols only.
\<close>

fun toStr :: "FlattenOptions \<Rightarrow> leaf \<Rightarrow> error + string option" where
  "toStr opts JNull = Inr (if the_includeNullUndefined opts then Some ''null'' else None)"
| "toStr opts JUndefined = Inr (if the_includeNullUndefined opts then Some ''undefined'' else None)"
| "toStr opts (JDate d) = (case d of None \<Rightarrow> Inl RangeError | Some t \<Rightarrow> Inr (Some t))"
| "toStr opts (JString s) = Inr (Some s)"
| "toStr opts (JNumber n) = Inr (Some (String_number n))"
| "toStr opts (JBool b) = Inr (Some (if b then ''true'' else ''false''))"
| "toStr opts (JBigInt i) = Inr (Some (String_int i))"
| "toStr opts (JOpaque r t) =
     (case r of JsonText s \<Rightarrow> Inr (Some s) | JsonUndefined \<Rightarrow> Inr None | JsonThrows \<Rightarrow> Inr (Some t))"

section \<open>The walk\<close>

text \<open>\<^verbatim>\<open>const s = toStr(x); if (s !== undefined) add(path, s);\<close>\<close>

definition emit :: "FlattenOptions \<Rightarrow> leaf \<Rightarrow> string \<Rightarrow> accumulator \<Rightarrow> error + accumulator" where
  "emit opts x path acc =
     (case toStr opts x of
        Inl e \<Rightarrow> Inl e
      | Inr None \<Rightarrow> Inr acc
      | Inr (Some s) \<Rightarrow> Inr (add opts acc path s))"

text \<open>Lines 113 and 123: \<^verbatim>\<open>path ? `${path}${delimiter}${k}` : k\<close>.\<close>

definition next_path :: "FlattenOptions \<Rightarrow> string \<Rightarrow> string \<Rightarrow> string" where
  "next_path opts path k = (if path \<noteq> [] then path @ the_delimiter opts @ k else k)"

text \<open>
  Lines 96 to 99, the loop over an array whose items all pass \<^verbatim>\<open>isPrimitive\<close>; the last
  equation is never reached under that guard.
\<close>

fun add_primitives ::
  "FlattenOptions \<Rightarrow> jsval list \<Rightarrow> string \<Rightarrow> accumulator \<Rightarrow> error + accumulator" where
  "add_primitives opts [] path acc = Inr acc"
| "add_primitives opts (Leaf x # rest) path acc =
     (case emit opts x path acc of
        Inl e \<Rightarrow> Inl e
      | Inr acc' \<Rightarrow> add_primitives opts rest path acc')"
| "add_primitives opts (v # rest) path acc = add_primitives opts rest path acc"

text \<open>
  Lines 86 to 132. \<open>walk_items\<close> is the loop of lines 104 to 117 and \<open>walk_entries\<close> the loop
  over \<^verbatim>\<open>Object.entries\<close> of lines 112 to 115 and 122 to 125. The accumulator the closures
  mutate is passed in and returned; an exception ends every loop.

  A value that is neither an array nor another object is stringified and added, by lines 87
  to 91 when it is a primitive or a date and by the fallback of lines 129 to 131 otherwise
  (\<^verbatim>\<open>undefined\<close>, a function, a symbol): the two places run the same two statements. In the
  loop of lines 104 to 117 there is no fallback: an item that is neither primitive, date,
  array nor object is passed over.
\<close>

fun walk :: "FlattenOptions \<Rightarrow> jsval \<Rightarrow> string \<Rightarrow> accumulator \<Rightarrow> error + accumulator"
  and walk_items :: "FlattenOptions \<Rightarrow> jsval list \<Rightarrow> string \<Rightarrow> accumulator \<Rightarrow> error + accumulator"
  and walk_entries ::
    "FlattenOptions \<Rightarrow> (string \<times> jsval) list \<Rightarrow> string \<Rightarrow> accumulator \<Rightarrow> error + accumulator"
where
  "walk opts (Leaf x) path acc = emit opts x path acc"
| "walk opts (JArray val) path acc =
     (if list_all isPrimitive val then add_primitives opts val path acc
      else walk_items opts val path acc)"
| "walk opts (JObject fs) path acc = walk_entries opts fs path acc"
| "walk_items opts [] path acc = Inr acc"
| "walk_items opts (Leaf x # rest) path acc =
     (if isPrimitive (Leaf x) \<or> isDate (Leaf x)
      then (case emit opts x path acc of
              Inl e \<Rightarrow> Inl e
            | Inr acc' \<Rightarrow> walk_items opts rest path acc')
      else walk_items opts rest path acc)"
| "walk_items opts (JArray item # rest) path acc =
     (case walk opts (JArray item) path acc of
        Inl e \<Rightarrow> Inl e
      | Inr acc' \<Rightarrow> walk_items opts rest path acc')"
| "walk_items opts (JObject fs # rest) path acc =
     (case walk_entries opts fs path acc of
        Inl e \<Rightarrow> Inl e
      | Inr acc' \<Rightarrow> walk_items opts rest path acc')"
| "walk_entries opts [] path acc = Inr acc"
| "walk_entries opts ((k, v) # rest) path acc =
     (case walk opts v (next_path opts path k) acc of
        Inl e \<Rightarrow> Inl e
      | Inr acc' \<Rightarrow> walk_entries opts rest path acc')"

section \<open>The returned object\<close>

text \<open>\<^verbatim>\<open>arr.join(joiner)\<close> on an array of strings.\<close>

fun join :: "string \<Rightarrow> string list \<Rightarrow> string" where
  "join sep [] = []"
| "join sep [x] = x"
| "join sep (x # y # ys) = x @ sep @ join sep (y # ys)"

text \<open>
  The result is an ordinary object built by \<^verbatim>\<open>Object.fromEntries\<close>. Its own keys are
  enumerated (\<^verbatim>\<open>Object.keys\<close>, \<^verbatim>\<open>Object.entries\<close>, \<^verbatim>\<open>JSON.stringify\<close>, \<^verbatim>\<open>for-in\<close>) with
  the array indices first, in ascending numeric order, and then the other strings in the order
  in which they were created. An array index is the canonical decimal numeral of an integer
  from \<open>0\<close> to \<open>2^32 - 2\<close>. The object is modelled by the list of its entries in that order.
\<close>

definition is_digit :: "char \<Rightarrow> bool" where
  "is_digit c = (c \<in> set ''0123456789'')"

definition index_value :: "string \<Rightarrow> int" where
  "index_value s = foldl (\<lambda>n c. 10 * n + (of_char c - 48)) 0 s"

definition is_array_index :: "string \<Rightarrow> bool" where
  "is_array_index s =
     (s \<noteq> [] \<and> list_all is_digit s \<and> (s = ''0'' \<or> hd s \<noteq> CHR ''0'') \<and>
      index_value s < 4294967295)"

type_synonym object = "(string \<times> string) list"

fun insert_index :: "string \<Rightarrow> string \<Rightarrow> object \<Rightarrow> object" where
  "insert_index k v [] = [(k, v)]"
| "insert_index k v ((k', v') # rest) =
     (if is_array_index k' \<and> index_value k' < index_value k
      then (k', v') # insert_index k v rest
      else (k, v) # (k', v') # rest)"

fun overwrite :: "string \<Rightarrow> string \<Rightarrow> object \<Rightarrow> object" where
  "overwrite k v [] = []"
| "overwrite k v ((k', v') # rest) =
     (if k' = k then (k, v) # rest else (k', v') # overwrite k v rest)"

text \<open>Creating or overwriting one data property.\<close>

definition define_property :: "object \<Rightarrow> string \<times> string \<Rightarrow> object" where
  "define_property obj e =
     (case map_of obj (fst e) of
        Some old \<Rightarrow> overwrite (fst e) (snd e) obj
      | None \<Rightarrow> if is_array_index (fst e) then insert_index (fst e) (snd e) obj else obj @ [e])"

definition fromEntries :: "(string \<times> string) list \<Rightarrow> object" where
  "fromEntries entries = foldl define_property [] entries"

text \<open>
  Lines 134 to 139. The comparison of line 138 is the order of the strings by code units,
  here the lexicographic order of character lists; \<^verbatim>\<open>sort\<close> is stable.
\<close>

definition build_entries :: "FlattenOptions \<Rightarrow> accumulator \<Rightarrow> (string \<times> string) list" where
  "build_entries opts acc =
     (let entries = map (\<lambda>(k, arr). (k, join (the_joiner opts) arr)) acc
      in if sortKeys opts = Some True then sort_key fst entries else entries)"

definition flattenToKeyValue :: "jsval \<Rightarrow> FlattenOptions \<Rightarrow> error + object" where
  "flattenToKeyValue input opts =
     (case walk opts input [] [] of
        Inl e \<Rightarrow> Inl e
      | Inr acc \<Rightarrow> Inr (fromEntries (build_entries opts acc)))"

section \<open>What the walk emits\<close>

text \<open>
  The sequence of (path, text) pairs that the walk of a value hands to \<open>add\<close>, in the order
  of the walk: every value that lands on a path, before any accumulation. An invalid date
  contributes nothing here; the walk of a value that holds one raises.
\<close>

definition leaf_text :: "FlattenOptions \<Rightarrow> leaf \<Rightarrow> string list" where
  "leaf_text opts x = (case toStr opts x of Inr (Some s) \<Rightarrow> [s] | _ \<Rightarrow> [])"

fun emissions :: "FlattenOptions \<Rightarrow> jsval \<Rightarrow> string \<Rightarrow> (string \<times> string) list"
  and emissions_items :: "FlattenOptions \<Rightarrow> jsval list \<Rightarrow> string \<Rightarrow> (string \<times> string) list"
  and emissions_entries ::
    "FlattenOptions \<Rightarrow> (string \<times> jsval) list \<Rightarrow> string \<Rightarrow> (string \<times> string) list"
where
  "emissions opts (Leaf x) path = map (Pair path) (leaf_text opts x)"
| "emissions opts (JArray val) path = emissions_items opts val path"
| "emissions opts (JObject fs) path = emissions_entries opts fs path"
| "emissions_items opts [] path = []"
| "emissions_items opts (Leaf x # rest) path =
     (if isPrimitive (Leaf x) \<or> isDate (Leaf x) then map (Pair path) (leaf_text opts x) else [])
     @ emissions_items opts rest path"
| "emissions_items opts (JArray item # rest) path =
     emissions opts (JArray item) path @ emissions_items opts rest path"
| "emissions_items opts (JObject fs # rest) path =
     emissions_entries opts fs path @ emissions_items opts rest path"
| "emissions_entries opts [] path = []"
| "emissions_entries opts ((k, v) # rest) path =
     emissions opts v (next_path opts path k) @ emissions_entries opts rest path"

text \<open>A value holds an invalid date, at any depth.\<close>

fun invalid_date :: "jsval \<Rightarrow> bool"
  and invalid_date_items :: "jsval list \<Rightarrow> bool"
  and invalid_date_entries :: "(string \<times> jsval) list \<Rightarrow> bool"
where
  "invalid_date (Leaf x) = (x = JDate None)"
| "invalid_date (JArray val) = invalid_date_items val"
| "invalid_date (JObject fs) = invalid_date_entries fs"
| "invalid_date_items [] = False"
| "invalid_date_items (v # rest) = (invalid_date v \<or> invalid_date_items rest)"
| "invalid_date_entries [] = False"
| "invalid_date_entries ((k, v) # rest) = (invalid_date v \<or> invalid_date_entries rest)"

text \<open>
  The chains of field names that lead from a value to the leaves below it; an array adds
  nothing to a chain.
\<close>

fun key_chains :: "jsval \<Rightarrow> string list list"
  and key_chains_items :: "jsval list \<Rightarrow> string list list"
  and key_chains_entries :: "(string \<times> jsval) list \<Rightarrow> string list list"
where
  "key_chains (Leaf x) = [[]]"
| "key_chains (JArray val) = key_chains_items val"
| "key_chains (JObject fs) = key_chains_entries fs"
| "key_chains_items [] = []"
| "key_chains_items (v # rest) = key_chains v @ key_chains_items rest"
| "key_chains_entries [] = []"
| "key_chains_entries ((k, v) # rest) = map ((#) k) (key_chains v) @ key_chains_entries rest"

text \<open>The path the walk builds along a chain of field names, from a starting path.\<close>

definition path_of :: "FlattenOptions \<Rightarrow> string \<Rightarrow> string list \<Rightarrow> string" where
  "path_of opts path ks = foldl (next_path opts) path ks"

text \<open>Accumulating a sequence of emissions from the empty accumulator.\<close>

definition add_pair :: "FlattenOptions \<Rightarrow> accumulator \<Rightarrow> string \<times> string \<Rightarrow> accumulator" where
  "add_pair opts acc e = add opts acc (fst e) (snd e)"

definition accumulate :: "FlattenOptions \<Rightarrow> (string \<times> string) list \<Rightarrow> accumulator" where
  "accumulate opts es = foldl (add_pair opts) [] es"

text \<open>The first occurrence of each element, in order.\<close>

definition first_occurrences :: "'a list \<Rightarrow> 'a list" where
  "first_occurrences xs = rev (remdups (rev xs))"

text \<open>The texts emitted on one path, in the order of the walk.\<close>

definition values_at :: "string \<Rightarrow> (string \<times> string) list \<Rightarrow> string list" where
  "values_at k es = map snd (filter (\<lambda>e. fst e = k) es)"

text \<open>
  The accumulated sequence of a path: the texts that landed on it, in order, each one once
  when \<^verbatim>\<open>dedupeArrayValues\<close> is on.
\<close>

definition accumulated :: "FlattenOptions \<Rightarrow> jsval \<Rightarrow> string \<Rightarrow> string list" where
  "accumulated opts input k =
     (if dedupe opts then first_occurrences (values_at k (emissions opts input []))
      else values_at k (emissions opts input []))"

text \<open>The non-empty paths in the order in which each first received a value.\<close>

definition discovery_order :: "FlattenOptions \<Rightarrow> jsval \<Rightarrow> string list" where
  "discovery_order opts input =
     first_occurrences (filter (\<lambda>k. k \<noteq> []) (map fst (emissions opts input [])))"

definition keys :: "object \<Rightarrow> string list" where
  "keys obj = map fst obj"

definition not_index :: "string \<Rightarrow> bool" where
  "not_index k = (\<not> is_array_index k)"

text \<open>
  The array indices come first among the keys of an object, in ascending order of their
  numeric values.
\<close>

definition indices_first :: "object \<Rightarrow> bool" where
  "indices_first obj =
     (keys obj = filter is_array_index (keys obj) @ filter not_index (keys obj) \<and>
      sorted (map index_value (filter is_array_index (keys obj))))"

text \<open>Shorthand for the examples.\<close>

abbreviation num :: "54 word \<Rightarrow> jsval" where "num n \<equiv> Leaf (JNumber (Integer n))"
abbreviation str :: "string \<Rightarrow> jsval" where "str s \<equiv> Leaf (JString s)"

section \<open>The walk and the accumulator, step by step\<close>

lemma first_occurrences_snoc:
  "first_occurrences (xs @ [x]) = (if x \<in> set xs then first_occurrences xs else first_occurrences xs @ [x])"
  by (simp add: first_occurrences_def)

lemma map_fst_push: "map fst (push acc key val) = map fst acc"
  by (induction acc key val rule: push.induct) auto

lemma map_of_push:
  "map_of (push acc key val) k =
     (if k = key then map_option (\<lambda>l. l @ [val]) (map_of acc key) else map_of acc k)"
  by (induction acc key val rule: push.induct) auto

lemma keys_add:
  "map fst (add opts acc key val) =
     (if key = [] \<or> key \<in> set (map fst acc) then map fst acc else map fst acc @ [key])"
  by (auto simp: add_def map_fst_push map_of_eq_None_iff split: option.splits)
     (metis domI domIff map_of_eq_None_iff set_map)+

lemma map_of_add:
  "map_of (add opts acc key val) k =
     (if key = [] \<or> k \<noteq> key then map_of acc k
      else case map_of acc key of
             None \<Rightarrow> Some [val]
           | Some l \<Rightarrow> Some (if dedupe opts \<and> val \<in> set l then l else l @ [val]))"
  by (auto simp: add_def map_of_push map_add_def split: option.splits)

lemma emit_eq:
  "emit opts x p acc =
     (if x = JDate None then Inl RangeError
      else Inr (foldl (add_pair opts) acc (map (Pair p) (leaf_text opts x))))"
  by (cases x) (auto simp: emit_def leaf_text_def add_pair_def split: option.splits json_result.splits)

lemma add_primitives_eq:
  "list_all isPrimitive val \<Longrightarrow>
     add_primitives opts val p acc = Inr (foldl (add_pair opts) acc (emissions_items opts val p)) \<and>
     \<not> invalid_date_items val"
proof (induction val arbitrary: acc)
  case Nil
  then show ?case by simp
next
  case (Cons v rest)
  then obtain x where v: "v = Leaf x" and x: "x \<noteq> JDate None"
    by (cases v rule: isPrimitive.cases) auto
  with Cons show ?case by (simp add: emit_eq)
qed

lemma walk_eq:
  "walk opts v p acc =
     (if invalid_date v then Inl RangeError
      else Inr (foldl (add_pair opts) acc (emissions opts v p)))"
  "walk_items opts vs p acc =
     (if invalid_date_items vs then Inl RangeError
      else Inr (foldl (add_pair opts) acc (emissions_items opts vs p)))"
  "walk_entries opts fs p acc =
     (if invalid_date_entries fs then Inl RangeError
      else Inr (foldl (add_pair opts) acc (emissions_entries opts fs p)))"
proof (induction opts v p acc and opts vs p acc and opts fs p acc
       rule: walk_walk_items_walk_entries.induct)
  case (1 opts x path acc)
  then show ?case by (simp add: emit_eq)
next
  case (2 opts val path acc)
  then show ?case by (simp add: add_primitives_eq)
next
  case (3 opts fs path acc)
  then show ?case by simp
next
  case (4 opts path acc)
  then show ?case by simp
next
  case (5 opts x rest path acc)
  then show ?case by (cases x) (simp_all add: emit_eq)
next
  case (6 opts item rest path acc)
  then show ?case by (cases "invalid_date_items item") simp_all
next
  case (7 opts fs rest path acc)
  then show ?case by (cases "invalid_date_entries fs") simp_all
next
  case (8 opts path acc)
  then show ?case by simp
next
  case (9 opts k v rest path acc)
  then show ?case by (cases "invalid_date v") simp_all
qed


lemma accumulate_snoc: "accumulate opts (es @ [e]) = add opts (accumulate opts es) (fst e) (snd e)"
  by (simp add: accumulate_def add_pair_def)

lemma keys_accumulate:
  "map fst (accumulate opts es) = first_occurrences (filter (\<lambda>k. k \<noteq> []) (map fst es))"
proof (induction es rule: rev_induct)
  case Nil
  then show ?case by (simp add: accumulate_def first_occurrences_def)
next
  case (snoc e es)
  have "set (first_occurrences (filter (\<lambda>k. k \<noteq> []) (map fst es))) = set (filter (\<lambda>k. k \<noteq> []) (map fst es))"
    by (simp add: first_occurrences_def)
  with snoc show ?case
    by (auto simp: accumulate_snoc keys_add first_occurrences_snoc)
qed

lemma set_first_occurrences: "set (first_occurrences xs) = set xs"
  by (simp add: first_occurrences_def)

lemma distinct_first_occurrences: "distinct (first_occurrences xs)"
  by (simp add: first_occurrences_def)

lemma values_at_snoc:
  "values_at k (es @ [e]) = values_at k es @ (if fst e = k then [snd e] else [])"
  by (simp add: values_at_def)

lemma values_at_Nil_iff: "values_at k es = [] \<longleftrightarrow> k \<notin> fst ` set es"
  by (auto simp: values_at_def filter_empty_conv)

lemma map_of_accumulate:
  "map_of (accumulate opts es) k =
     (if k \<noteq> [] \<and> k \<in> fst ` set es
      then Some (if dedupe opts then first_occurrences (values_at k es) else values_at k es)
      else None)"
proof (induction es rule: rev_induct)
  case Nil
  then show ?case by (simp add: accumulate_def)
next
  case (snoc e es)
  show ?case
  proof (cases "fst e = k \<and> k \<noteq> []")
    case False
    with snoc show ?thesis
      by (auto simp: accumulate_snoc map_of_add values_at_snoc)
  next
    case True
    show ?thesis
    proof (cases "k \<in> fst ` set es")
      case False
      then have "values_at k es = []" by (simp add: values_at_Nil_iff)
      with snoc True False show ?thesis
        by (simp add: accumulate_snoc map_of_add values_at_snoc first_occurrences_def)
    next
      case seen: True
      with snoc True show ?thesis
        by (simp add: accumulate_snoc map_of_add values_at_snoc first_occurrences_snoc
              set_first_occurrences)
    qed
  qed
qed


lemma set_insert_index: "set (insert_index k v obj) = insert (k, v) (set obj)"
  by (induction k v obj rule: insert_index.induct) auto

lemma filter_insert_index:
  "\<not> P (k, v) \<Longrightarrow> filter P (insert_index k v obj) = filter P obj"
  by (induction k v obj rule: insert_index.induct) auto

lemma distinct_insert_index:
  "k \<notin> fst ` set obj \<Longrightarrow> distinct (map fst obj) \<Longrightarrow> distinct (map fst (insert_index k v obj))"
  by (induction k v obj rule: insert_index.induct) (auto simp: set_insert_index)

lemma define_property_fresh:
  assumes "fst e \<notin> fst ` set obj"
  shows "define_property obj e =
           (if is_array_index (fst e) then insert_index (fst e) (snd e) obj else obj @ [e])"
proof -
  from assms have "map_of obj (fst e) = None" by (simp add: map_of_eq_None_iff)
  then show ?thesis by (simp add: define_property_def)
qed

lemma fromEntries_snoc: "fromEntries (es @ [e]) = define_property (fromEntries es) e"
  by (simp add: fromEntries_def)

lemma fromEntries_distinct:
  "distinct (map fst es) \<Longrightarrow>
     set (fromEntries es) = set es \<and> distinct (map fst (fromEntries es)) \<and>
     filter (\<lambda>e. not_index (fst e)) (fromEntries es) = filter (\<lambda>e. not_index (fst e)) es"
proof (induction es rule: rev_induct)
  case Nil
  then show ?case by (simp add: fromEntries_def)
next
  case (snoc e es)
  then have IH: "set (fromEntries es) = set es" "distinct (map fst (fromEntries es))"
    "filter (\<lambda>e. not_index (fst e)) (fromEntries es) = filter (\<lambda>e. not_index (fst e)) es"
    and fresh: "fst e \<notin> fst ` set (fromEntries es)"
    by auto
  show ?case
  proof (cases "is_array_index (fst e)")
    case True
    with IH fresh show ?thesis
      by (simp add: fromEntries_snoc define_property_fresh set_insert_index
            distinct_insert_index filter_insert_index not_index_def)
  next
    case False
    with IH fresh show ?thesis
      by (simp add: fromEntries_snoc define_property_fresh not_index_def)
  qed
qed

lemma map_fst_insort_key: "map fst (insort_key fst x xs) = insort (fst x) (map fst xs)"
  by (induction xs) auto

lemma keys_sort_key: "map fst (sort_key fst xs) = sort (map fst xs)"
  by (induction xs) (auto simp: map_fst_insort_key)

lemma keys_build_entries:
  "map fst (build_entries opts acc) =
     (if sortKeys opts = Some True then sort (map fst acc) else map fst acc)"
proof -
  have "map fst (map (\<lambda>(k, arr). (k, join (the_joiner opts) arr)) acc) = map fst acc"
    by (induction acc) auto
  then show ?thesis by (simp only: build_entries_def Let_def keys_sort_key if_distrib [of "map fst"] cong: if_cong)
qed

lemma set_build_entries:
  "set (build_entries opts acc) = (\<lambda>(k, arr). (k, join (the_joiner opts) arr)) ` set acc"
  by (simp add: build_entries_def Let_def)

lemma flatten_eq:
  "flattenToKeyValue input opts =
     (if invalid_date input then Inl RangeError
      else Inr (fromEntries (build_entries opts (accumulate opts (emissions opts input [])))))"
  by (simp add: flattenToKeyValue_def walk_eq accumulate_def)

lemma distinct_keys_build_entries:
  "distinct (map fst (build_entries opts (accumulate opts es)))"
  by (simp add: keys_build_entries keys_accumulate distinct_first_occurrences)

lemma flatten_keys:
  assumes "flattenToKeyValue input opts = Inr out"
  shows "distinct (keys out)"
    and "set (keys out) = set (discovery_order opts input)"
    and "filter not_index (keys out) =
           filter not_index (if sortKeys opts = Some True then sort (discovery_order opts input)
                             else discovery_order opts input)"
proof -
  let ?es = "build_entries opts (accumulate opts (emissions opts input []))"
  from assms have out: "out = fromEntries ?es"
    by (simp add: flatten_eq split: if_splits)
  have d: "distinct (map fst ?es)" by (rule distinct_keys_build_entries)
  note fe = fromEntries_distinct [OF d]
  show "distinct (keys out)" using fe by (simp add: keys_def out)
  have "set (keys out) = fst ` set ?es" using fe by (simp add: keys_def out)
  also have "\<dots> = set (map fst ?es)" by simp
  also have "\<dots> = set (discovery_order opts input)"
    by (simp only: keys_build_entries keys_accumulate discovery_order_def) simp
  finally show "set (keys out) = set (discovery_order opts input)" .
  have "filter not_index (keys out) = map fst (filter (\<lambda>e. not_index (fst e)) (fromEntries ?es))"
    by (simp add: keys_def out filter_map comp_def)
  also have "\<dots> = map fst (filter (\<lambda>e. not_index (fst e)) ?es)" using fe by simp
  also have "\<dots> = filter not_index (map fst ?es)" by (simp add: filter_map comp_def)
  finally show "filter not_index (keys out) =
           filter not_index (if sortKeys opts = Some True then sort (discovery_order opts input)
                             else discovery_order opts input)"
    by (simp only: keys_build_entries keys_accumulate discovery_order_def)
qed

lemma flatten_value:
  assumes "flattenToKeyValue input opts = Inr out" and "(k, s) \<in> set out"
  shows "s = join (the_joiner opts) (accumulated opts input k)"
    and "accumulated opts input k \<noteq> []" and "k \<noteq> []"
proof -
  let ?acc = "accumulate opts (emissions opts input [])"
  let ?es = "build_entries opts ?acc"
  from assms have out: "out = fromEntries ?es"
    by (simp add: flatten_eq split: if_splits)
  have d: "distinct (map fst ?es)" by (rule distinct_keys_build_entries)
  from assms(2) have "(k, s) \<in> set ?es" using fromEntries_distinct [OF d] by (simp add: out)
  then obtain arr where arr: "(k, arr) \<in> set ?acc" and s: "s = join (the_joiner opts) arr"
    by (auto simp: set_build_entries)
  have "distinct (map fst ?acc)" by (simp add: keys_accumulate distinct_first_occurrences)
  with arr have m: "map_of ?acc k = Some arr" by simp
  then have k: "k \<noteq> [] \<and> k \<in> fst ` set (emissions opts input [])"
    and a: "arr = accumulated opts input k"
    by (auto simp: map_of_accumulate accumulated_def split: if_splits)
  show "s = join (the_joiner opts) (accumulated opts input k)" using s a by simp
  show "k \<noteq> []" using k by simp
  from k have "values_at k (emissions opts input []) \<noteq> []" by (simp add: values_at_Nil_iff)
  then show "accumulated opts input k \<noteq> []"
    by (simp add: accumulated_def first_occurrences_def)
qed


lemma emissions_entries_append:
  "emissions_entries opts (fs @ gs) p = emissions_entries opts fs p @ emissions_entries opts gs p"
  by (induction fs) auto

lemma invalid_date_entries_append:
  "invalid_date_entries (fs @ gs) = (invalid_date_entries fs \<or> invalid_date_entries gs)"
  by (induction fs) auto

lemma emissions_items_append:
  "emissions_items opts (vs @ ws) p = emissions_items opts vs p @ emissions_items opts ws p"
proof (induction vs)
  case Nil
  then show ?case by simp
next
  case (Cons v vs)
  then show ?case by (cases v) simp_all
qed

lemma emissions_items_objects:
  "emissions_items opts (map JObject fss) p = emissions_entries opts (concat fss) p"
  by (induction fss) (simp_all add: emissions_entries_append)

lemma invalid_date_items_objects:
  "invalid_date_items (map JObject fss) = invalid_date_entries (concat fss)"
  by (induction fss) (simp_all add: invalid_date_entries_append)

lemma path_of_Cons: "path_of opts p (k # ks) = path_of opts (next_path opts p k) ks"
  by (simp add: path_of_def)

lemma emissions_chains:
  "e \<in> set (emissions opts v p) \<Longrightarrow> \<exists>ks \<in> set (key_chains v). fst e = path_of opts p ks"
  "e \<in> set (emissions_items opts vs p) \<Longrightarrow> \<exists>ks \<in> set (key_chains_items vs). fst e = path_of opts p ks"
  "e \<in> set (emissions_entries opts fs p) \<Longrightarrow> \<exists>ks \<in> set (key_chains_entries fs). fst e = path_of opts p ks"
proof (induction opts v p and opts vs p and opts fs p rule: emissions_emissions_items_emissions_entries.induct)
  case (1 opts x path)
  then show ?case by (auto simp: path_of_def)
next
  case (5 opts x rest path)
  then show ?case by (auto simp: path_of_def split: if_splits)
next
  case (9 opts k v rest path)
  from "9.prems" have "e \<in> set (emissions opts v (next_path opts path k)) \<or>
      e \<in> set (emissions_entries opts rest path)"
    by simp
  then show ?case
  proof
    assume "e \<in> set (emissions opts v (next_path opts path k))"
    then obtain ks where "ks \<in> set (key_chains v)"
      and "fst e = path_of opts (next_path opts path k) ks"
      using "9.IH"(1) by blast
    then have "k # ks \<in> set (key_chains_entries ((k, v) # rest))"
      and "fst e = path_of opts path (k # ks)"
      by (simp_all add: path_of_Cons)
    then show ?thesis by blast
  next
    assume "e \<in> set (emissions_entries opts rest path)"
    then obtain ks where "ks \<in> set (key_chains_entries rest)" and "fst e = path_of opts path ks"
      using "9.IH"(2) by blast
    then show ?thesis by auto
  qed
qed auto

lemma insert_index_split:
  "list_all (\<lambda>e. is_array_index (fst e)) A \<Longrightarrow> list_all (\<lambda>e. not_index (fst e)) B \<Longrightarrow>
     insert_index k v (A @ B) = insort_key (\<lambda>e. index_value (fst e)) (k, v) A @ B"
proof (induction A)
  case Nil
  then show ?case by (cases B) (auto simp: not_index_def)
next
  case (Cons a A)
  then show ?case by (cases a) auto
qed

lemma indices_firstI:
  assumes "obj = A @ B" and "list_all (\<lambda>e. is_array_index (fst e)) A"
    and "list_all (\<lambda>e. not_index (fst e)) B" and "sorted (map (\<lambda>e. index_value (fst e)) A)"
  shows "indices_first obj"
proof -
  have A: "filter is_array_index (map fst A) = map fst A" "filter not_index (map fst A) = []"
    using assms(2) by (simp_all add: list_all_iff not_index_def)
  have B: "filter is_array_index (map fst B) = []" "filter not_index (map fst B) = map fst B"
    using assms(3) by (simp_all add: list_all_iff not_index_def)
  from assms(4) have "sorted (map index_value (map fst A))" by (simp add: comp_def)
  with A B show ?thesis by (simp add: indices_first_def keys_def assms(1))
qed

lemma indices_firstE:
  assumes "indices_first obj"
  obtains A B where "obj = A @ B" and "list_all (\<lambda>e. is_array_index (fst e)) A"
    and "list_all (\<lambda>e. not_index (fst e)) B" and "sorted (map (\<lambda>e. index_value (fst e)) A)"
proof -
  let ?n = "length (filter is_array_index (keys obj))"
  let ?A = "take ?n obj" and ?B = "drop ?n obj"
  from assms have k: "keys obj = filter is_array_index (keys obj) @ filter not_index (keys obj)"
    and s: "sorted (map index_value (filter is_array_index (keys obj)))"
    by (simp_all add: indices_first_def)
  have "map fst ?A = take ?n (keys obj)" by (simp add: keys_def take_map)
  also have "\<dots> = take ?n (filter is_array_index (keys obj) @ filter not_index (keys obj))"
    using k by simp
  also have "\<dots> = filter is_array_index (keys obj)" by simp
  finally have a: "map fst ?A = filter is_array_index (keys obj)" .
  have "map fst ?B = drop ?n (keys obj)" by (simp add: keys_def drop_map)
  also have "\<dots> = drop ?n (filter is_array_index (keys obj) @ filter not_index (keys obj))"
    using k by simp
  also have "\<dots> = filter not_index (keys obj)" by simp
  finally have b: "map fst ?B = filter not_index (keys obj)" .
  have "list_all is_array_index (map fst ?A)" unfolding a by (simp add: list_all_iff)
  then have 1: "list_all (\<lambda>e. is_array_index (fst e)) ?A" by (simp add: list_all_iff)
  have "list_all not_index (map fst ?B)" unfolding b by (simp add: list_all_iff)
  then have 2: "list_all (\<lambda>e. not_index (fst e)) ?B" by (simp add: list_all_iff)
  have "map (\<lambda>e. index_value (fst e)) ?A = map index_value (map fst ?A)" by (simp add: comp_def)
  with s a have 3: "sorted (map (\<lambda>e. index_value (fst e)) ?A)" by simp
  have "obj = ?A @ ?B" by simp
  then show ?thesis using 1 2 3 by (rule that)
qed

lemma indices_first_define_property:
  assumes "indices_first obj" and "fst e \<notin> fst ` set obj"
  shows "indices_first (define_property obj e)"
proof -
  from assms(1) obtain A B where obj: "obj = A @ B"
    and A: "list_all (\<lambda>e. is_array_index (fst e)) A"
    and B: "list_all (\<lambda>e. not_index (fst e)) B"
    and s: "sorted (map (\<lambda>e. index_value (fst e)) A)"
    by (rule indices_firstE)
  show ?thesis
  proof (cases "is_array_index (fst e)")
    case True
    let ?A = "insort_key (\<lambda>e. index_value (fst e)) e A"
    have 1: "define_property obj e = ?A @ B"
      using True assms(2) insert_index_split [OF A B, of "fst e" "snd e"]
      by (simp add: define_property_fresh obj)
    have 2: "list_all (\<lambda>e. is_array_index (fst e)) ?A"
      using A True by (simp add: list_all_iff set_insort_key)
    have 3: "sorted (map (\<lambda>e. index_value (fst e)) ?A)"
      using s by (simp add: sorted_insort_key)
    show ?thesis by (rule indices_firstI [OF 1 2 B 3])
  next
    case False
    have 1: "define_property obj e = A @ (B @ [e])"
      using False assms(2) by (simp add: define_property_fresh obj)
    have 2: "list_all (\<lambda>e. not_index (fst e)) (B @ [e])"
      using B False by (simp add: not_index_def)
    show ?thesis by (rule indices_firstI [OF 1 A 2 s])
  qed
qed

lemma indices_first_fromEntries:
  "distinct (map fst es) \<Longrightarrow> indices_first (fromEntries es)"
proof (induction es rule: rev_induct)
  case Nil
  then show ?case by (simp add: fromEntries_def indices_first_def keys_def)
next
  case (snoc e es)
  then have d: "distinct (map fst es)" and "fst e \<notin> fst ` set es" by auto
  then have "fst e \<notin> fst ` set (fromEntries es)" using fromEntries_distinct [OF d] by simp
  with snoc d show ?case by (simp add: fromEntries_snoc indices_first_define_property)
qed



text \<open>
  Among the keys that are not array indices, the returned object keeps the order of the
  entries it is built from: sorted when \<^verbatim>\<open>sortKeys\<close> is true, first discovery otherwise.
\<close>

lemma key_order_outside_indices:
  assumes "flattenToKeyValue input opts = Inr out"
  shows "filter not_index (keys out) =
           filter not_index (if sortKeys opts = Some True then sort (discovery_order opts input)
                             else discovery_order opts input) \<and>
         (sortKeys opts = Some True \<longrightarrow> sorted (filter not_index (keys out))) \<and>
         (list_all not_index (keys out) \<longrightarrow>
            keys out = (if sortKeys opts = Some True then sort (discovery_order opts input)
                        else discovery_order opts input))"
proof (intro conjI impI)
  let ?L = "if sortKeys opts = Some True then sort (discovery_order opts input)
            else discovery_order opts input"
  show f: "filter not_index (keys out) = filter not_index ?L"
    by (rule flatten_keys(3) [OF assms])
  show "sorted (filter not_index (keys out))" if "sortKeys opts = Some True"
    using that f by (simp add: filter_sort)
  show "keys out = ?L" if n: "list_all not_index (keys out)"
  proof -
    have "set ?L = set (keys out)" using flatten_keys(2) [OF assms] by simp
    with n have "list_all not_index ?L" by (simp only: list_all_iff)
    then have "filter not_index ?L = ?L" by (simp only: list_all_iff filter_id_conv)
    moreover from n have "filter not_index (keys out) = keys out"
      by (simp only: list_all_iff filter_id_conv)
    ultimately show ?thesis using f by simp
  qed
qed

section \<open>The repository's own examples\<close>

text \<open>The test \<^verbatim>\<open>flattens nested objects\<close> of the repository.\<close>

lemma test_flattens_nested_objects:
  "flattenToKeyValue
     (JObject [(''a'', JObject [(''b'', JObject [(''c'', num 1)]), (''d'', str ''x'')])]) no_options
   = Inr [(''a.b.c'', ''1''), (''a.d'', ''x'')]"
  by code_simp

text \<open>The example of the README, with \<^verbatim>\<open>dedupeArrayValues\<close> and \<^verbatim>\<open>sortKeys\<close>.\<close>

lemma readme_example:
  "flattenToKeyValue
     (JObject [(''user'', JObject [(''id'', num 1), (''name'', str ''Ann'')]),
               (''tags'', JArray [str ''a'', str ''b'', str ''b'']),
               (''purchases'', JArray [JObject [(''sku'', str ''X''), (''qty'', num 1)],
                                       JObject [(''sku'', str ''Y''), (''qty'', num 2)],
                                       JObject [(''sku'', str ''X''), (''qty'', num 3)]])])
     (no_options\<lparr>dedupeArrayValues := Some True, sortKeys := Some True\<rparr>)
   = Inr [(''purchases.qty'', ''1,2,3''), (''purchases.sku'', ''X,Y''), (''tags'', ''a,b''),
          (''user.id'', ''1''), (''user.name'', ''Ann'')]"
  by code_simp

section \<open>Arrays of objects\<close>

text \<open>
  C1: the elements of an array of plain objects are walked at the path of the array itself,
  so the walk of the array is the walk of one object that has the fields of all the elements
  in element order: the same chain of field names leads to the same path whatever the
  position of the element, and the values merge under that path in element order.
  Flattening \<^verbatim>\<open>{purchases: [{sku: "X", qty: 1}, {sku: "Y", qty: 2}, {sku: "X", qty: 3}]}\<close>
  with the default options gives exactly
  \<^verbatim>\<open>{"purchases.sku": "X,Y,X", "purchases.qty": "1,2,3"}\<close>.
\<close>

theorem array_of_objects_merge:
  "walk opts (JArray (map JObject fss)) path acc = walk opts (JObject (concat fss)) path acc \<and>
   flattenToKeyValue
     (JObject [(''purchases'', JArray [JObject [(''sku'', str ''X''), (''qty'', num 1)],
                                       JObject [(''sku'', str ''Y''), (''qty'', num 2)],
                                       JObject [(''sku'', str ''X''), (''qty'', num 3)]])])
     no_options
   = Inr [(''purchases.sku'', ''X,Y,X''), (''purchases.qty'', ''1,2,3'')]"
proof (intro conjI)
  show "walk opts (JArray (map JObject fss)) path acc = walk opts (JObject (concat fss)) path acc"
    by (simp add: walk_eq emissions_items_objects invalid_date_items_objects)
  show "flattenToKeyValue
     (JObject [(''purchases'', JArray [JObject [(''sku'', str ''X''), (''qty'', num 1)],
                                       JObject [(''sku'', str ''Y''), (''qty'', num 2)],
                                       JObject [(''sku'', str ''X''), (''qty'', num 3)]])])
     no_options
   = Inr [(''purchases.sku'', ''X,Y,X''), (''purchases.qty'', ''1,2,3'')]"
    by code_simp
qed

text \<open>The equation at two one-field objects under \<^verbatim>\<open>purchases\<close>.\<close>

theorem array_of_objects_merge_witness:
  "walk no_options (JArray (map JObject [[(''sku'', str ''X'')], [(''sku'', str ''Y'')]])) ''purchases'' []
     = Inr [(''purchases.sku'', [''X'', ''Y''])]"
proof -
  have "walk no_options (JArray (map JObject [[(''sku'', str ''X'')], [(''sku'', str ''Y'')]])) ''purchases'' []
      = walk no_options (JObject (concat [[(''sku'', str ''X'')], [(''sku'', str ''Y'')]])) ''purchases'' []"
    by (rule array_of_objects_merge [THEN conjunct1])
  also have "\<dots> = Inr [(''purchases.sku'', [''X'', ''Y''])]"
    by code_simp
  finally show ?thesis .
qed

section \<open>The value of a key\<close>

text \<open>
  C2: for every input and options, every key of the returned object occurs once, and its
  value is the accumulated sequence of that key (the texts emitted on that path in the order
  of the walk, each one once when \<^verbatim>\<open>dedupeArrayValues\<close> is on) joined by the joiner.
\<close>

theorem output_value_is_joined_sequence:
  assumes "flattenToKeyValue input opts = Inr out" and "(k, s) \<in> set out"
  shows "s = join (the_joiner opts) (accumulated opts input k) \<and> distinct (keys out)"
  using flatten_value(1) [OF assms] flatten_keys(1) [OF assms(1)] by simp

text \<open>At \<^verbatim>\<open>{tags: ["a","b","b"]}\<close> with joiner \<^verbatim>\<open>|\<close> and de-duplication.\<close>

theorem output_value_is_joined_sequence_witness:
  "flattenToKeyValue (JObject [(''tags'', JArray [str ''a'', str ''b'', str ''b''])])
     (no_options\<lparr>joiner := Some ''|'', dedupeArrayValues := Some True\<rparr>) = Inr [(''tags'', ''a|b'')] \<and>
   accumulated (no_options\<lparr>joiner := Some ''|'', dedupeArrayValues := Some True\<rparr>)
     (JObject [(''tags'', JArray [str ''a'', str ''b'', str ''b''])]) ''tags'' = [''a'', ''b''] \<and>
   ''a|b'' = join (the_joiner (no_options\<lparr>joiner := Some ''|'', dedupeArrayValues := Some True\<rparr>))
     (accumulated (no_options\<lparr>joiner := Some ''|'', dedupeArrayValues := Some True\<rparr>)
        (JObject [(''tags'', JArray [str ''a'', str ''b'', str ''b''])]) ''tags'')"
proof -
  let ?I = "JObject [(''tags'', JArray [str ''a'', str ''b'', str ''b''])]"
  let ?O = "no_options\<lparr>joiner := Some ''|'', dedupeArrayValues := Some True\<rparr>"
  have 1: "flattenToKeyValue ?I ?O = Inr [(''tags'', ''a|b'')]" by code_simp
  have 2: "(''tags'', ''a|b'') \<in> set [(''tags'', ''a|b'')]" by simp
  have 3: "accumulated ?O ?I ''tags'' = [''a'', ''b'']" by code_simp
  from output_value_is_joined_sequence [OF 1 2] 1 3 show ?thesis by blast
qed

section \<open>Null and undefined leaves\<close>

text \<open>
  C3: with \<^verbatim>\<open>includeNullUndefined\<close> on, a null or undefined leaf is emitted as
  \<^verbatim>\<open>"null"\<close> or \<^verbatim>\<open>"undefined"\<close> whether it is a field value or an array element. The code
  does so for \<^verbatim>\<open>null\<close>, and for \<^verbatim>\<open>undefined\<close> as a field value, but an \<^verbatim>\<open>undefined\<close>
  array element is dropped: \<^verbatim>\<open>isPrimitive(undefined)\<close> is false, so the array takes the loop
  of lines 104 to 117, where no branch handles the element.
\<close>

theorem undefined_array_element_dropped:
  "flattenToKeyValue (JObject [(''a'', JArray [Leaf JUndefined])])
     (no_options\<lparr>includeNullUndefined := Some True\<rparr>) = Inr [] \<and>
   flattenToKeyValue (JObject [(''a'', JArray [num 1, Leaf JUndefined])])
     (no_options\<lparr>includeNullUndefined := Some True\<rparr>) = Inr [(''a'', ''1'')] \<and>
   flattenToKeyValue (JObject [(''a'', Leaf JUndefined)])
     (no_options\<lparr>includeNullUndefined := Some True\<rparr>) = Inr [(''a'', ''undefined'')] \<and>
   flattenToKeyValue (JObject [(''a'', JArray [Leaf JNull])])
     (no_options\<lparr>includeNullUndefined := Some True\<rparr>) = Inr [(''a'', ''null'')]"
  by code_simp

section \<open>Opaque leaves\<close>

text \<open>
  C4: every opaque leaf (a function, a symbol) reached at a non-empty path is stringified and
  produces an entry of the output. The code does not: for a function without \<^verbatim>\<open>toJSON\<close>,
  \<^verbatim>\<open>JSON.stringify\<close> returns \<^verbatim>\<open>undefined\<close> without throwing, \<^verbatim>\<open>toStr\<close> returns that
  \<^verbatim>\<open>undefined\<close>, and \<open>walk\<close> emits nothing: flattening \<^verbatim>\<open>{f: function () {}}\<close> gives
  \<^verbatim>\<open>{}\<close>.
\<close>

theorem opaque_leaf_dropped:
  "toStr no_options (JOpaque JsonUndefined ''function () {}'') = Inr None \<and>
   flattenToKeyValue (JObject [(''f'', Leaf (JOpaque JsonUndefined ''function () {}''))]) no_options
     = Inr []"
  by code_simp

section \<open>Arrays and paths\<close>

text \<open>
  C5: array positions never contribute a path segment. Every key of the output is the path
  built from a chain of object field names of the input; a nested array is walked at the
  path of the enclosing array, wherever it stands in it; flattening \<^verbatim>\<open>{a: [[1,2],[3]]}\<close>
  gives \<^verbatim>\<open>{"a": "1,2,3"}\<close>.
\<close>

theorem arrays_add_no_path_segment:
  "(flattenToKeyValue input opts = Inr out \<longrightarrow>
      (\<forall>k \<in> set (keys out). \<exists>ks \<in> set (key_chains input). k = path_of opts [] ks)) \<and>
   walk opts (JArray (JArray item # rest)) path acc =
     (case walk opts (JArray item) path acc of
        Inl e \<Rightarrow> Inl e
      | Inr acc' \<Rightarrow> walk opts (JArray rest) path acc') \<and>
   emissions opts (JArray (before @ JArray item # rest)) path =
     emissions opts (JArray before) path @ emissions opts (JArray item) path @
     emissions opts (JArray rest) path \<and>
   flattenToKeyValue (JObject [(''a'', JArray [JArray [num 1, num 2], JArray [num 3]])]) no_options
     = Inr [(''a'', ''1,2,3'')]"
proof (intro conjI impI ballI)
  fix k
  assume out: "flattenToKeyValue input opts = Inr out" and k: "k \<in> set (keys out)"
  from k have "k \<in> set (discovery_order opts input)"
    using flatten_keys(2) [OF out] by simp
  then obtain e where "e \<in> set (emissions opts input [])" and "fst e = k"
    by (auto simp: discovery_order_def set_first_occurrences)
  then show "\<exists>ks \<in> set (key_chains input). k = path_of opts [] ks"
    using emissions_chains(1) [of e opts input "[]"] by auto
next
  show "walk opts (JArray (JArray item # rest)) path acc =
     (case walk opts (JArray item) path acc of
        Inl e \<Rightarrow> Inl e
      | Inr acc' \<Rightarrow> walk opts (JArray rest) path acc')"
    by (simp add: walk_eq)
next
  show "emissions opts (JArray (before @ JArray item # rest)) path =
     emissions opts (JArray before) path @ emissions opts (JArray item) path @
     emissions opts (JArray rest) path"
    by (simp add: emissions_items_append)
next
  show "flattenToKeyValue (JObject [(''a'', JArray [JArray [num 1, num 2], JArray [num 3]])]) no_options
     = Inr [(''a'', ''1,2,3'')]"
    by code_simp
qed

text \<open>At \<^verbatim>\<open>{a: [[{b: 1}], [3]]}\<close>: the key \<^verbatim>\<open>a.b\<close> comes from the chain \<^verbatim>\<open>a, b\<close>.\<close>

theorem arrays_add_no_path_segment_witness:
  "flattenToKeyValue (JObject [(''a'', JArray [JArray [JObject [(''b'', num 1)]], JArray [num 3]])]) no_options
     = Inr [(''a.b'', ''1''), (''a'', ''3'')] \<and>
   key_chains (JObject [(''a'', JArray [JArray [JObject [(''b'', num 1)]], JArray [num 3]])])
     = [[''a'', ''b''], [''a'']] \<and>
   (\<exists>ks \<in> set (key_chains (JObject [(''a'', JArray [JArray [JObject [(''b'', num 1)]], JArray [num 3]])])).
      ''a.b'' = path_of no_options [] ks)"
proof -
  let ?I = "JObject [(''a'', JArray [JArray [JObject [(''b'', num 1)]], JArray [num 3]])]"
  have 1: "flattenToKeyValue ?I no_options = Inr [(''a.b'', ''1''), (''a'', ''3'')]" by code_simp
  have 2: "''a.b'' \<in> set (keys [(''a.b'', ''1''), (''a'', ''3'')])" by (simp add: keys_def)
  have 3: "key_chains ?I = [[''a'', ''b''], [''a'']]" by simp
  from arrays_add_no_path_segment [THEN conjunct1, rule_format, OF 1 2] 1 3 show ?thesis by blast
qed

section \<open>De-duplication\<close>

text \<open>
  C6: on a path that already has a sequence, \<open>add\<close> appends the value unless
  \<^verbatim>\<open>dedupeArrayValues\<close> is on and the value occurs in the sequence, in which case the
  accumulator is unchanged; so the sequence of a path is the emitted values in order, and
  with the option their first occurrences in order. Flattening \<^verbatim>\<open>{tags: ["a","b","b"]}\<close>
  gives \<^verbatim>\<open>{"tags": "a,b,b"}\<close> by default and \<^verbatim>\<open>{"tags": "a,b"}\<close> with the option.
\<close>

theorem dedupe_keeps_first_occurrences:
  "(key \<noteq> [] \<and> map_of acc key = Some list \<longrightarrow>
      map_of (add opts acc key val) key =
        Some (if dedupe opts \<and> val \<in> set list then list else list @ [val]) \<and>
      (dedupe opts \<and> val \<in> set list \<longrightarrow> add opts acc key val = acc)) \<and>
   (key \<noteq> [] \<and> key \<in> fst ` set es \<longrightarrow>
      map_of (accumulate opts es) key =
        Some (if dedupe opts then first_occurrences (values_at key es) else values_at key es)) \<and>
   flattenToKeyValue (JObject [(''tags'', JArray [str ''a'', str ''b'', str ''b''])]) no_options
     = Inr [(''tags'', ''a,b,b'')] \<and>
   flattenToKeyValue (JObject [(''tags'', JArray [str ''a'', str ''b'', str ''b''])])
     (no_options\<lparr>dedupeArrayValues := Some True\<rparr>) = Inr [(''tags'', ''a,b'')]"
proof (intro conjI impI)
  assume "key \<noteq> [] \<and> map_of acc key = Some list"
  then show "map_of (add opts acc key val) key =
        Some (if dedupe opts \<and> val \<in> set list then list else list @ [val])"
    by (simp add: map_of_add)
next
  assume "key \<noteq> [] \<and> map_of acc key = Some list" and "dedupe opts \<and> val \<in> set list"
  then show "add opts acc key val = acc" by (simp add: add_def)
next
  assume "key \<noteq> [] \<and> key \<in> fst ` set es"
  then show "map_of (accumulate opts es) key =
        Some (if dedupe opts then first_occurrences (values_at key es) else values_at key es)"
    by (simp add: map_of_accumulate)
next
  show "flattenToKeyValue (JObject [(''tags'', JArray [str ''a'', str ''b'', str ''b''])]) no_options
     = Inr [(''tags'', ''a,b,b'')]"
    by code_simp
next
  show "flattenToKeyValue (JObject [(''tags'', JArray [str ''a'', str ''b'', str ''b''])])
     (no_options\<lparr>dedupeArrayValues := Some True\<rparr>) = Inr [(''tags'', ''a,b'')]"
    by code_simp
qed

text \<open>Adding a repeated and a new value to the sequence \<^verbatim>\<open>a, b\<close> of \<^verbatim>\<open>tags\<close>.\<close>

theorem dedupe_keeps_first_occurrences_witness:
  "map_of [(''tags'', [''a'', ''b''])] ''tags'' = Some [''a'', ''b''] \<and>
   dedupe (no_options\<lparr>dedupeArrayValues := Some True\<rparr>) \<and>
   add (no_options\<lparr>dedupeArrayValues := Some True\<rparr>) [(''tags'', [''a'', ''b''])] ''tags'' ''b''
     = [(''tags'', [''a'', ''b''])] \<and>
   map_of (add (no_options\<lparr>dedupeArrayValues := Some True\<rparr>) [(''tags'', [''a'', ''b''])] ''tags'' ''c'')
     ''tags'' = Some [''a'', ''b'', ''c'']"
proof -
  let ?O = "no_options\<lparr>dedupeArrayValues := Some True\<rparr>"
  let ?acc = "[(''tags'', [''a'', ''b''])]"
  have 1: "''tags'' \<noteq> [] \<and> map_of ?acc ''tags'' = Some [''a'', ''b'']" by simp
  have 2: "dedupe ?O" by (simp add: dedupe_def no_options_def)
  have 3: "dedupe ?O \<and> ''b'' \<in> set [''a'', ''b'']" using 2 by simp
  note t = dedupe_keeps_first_occurrences [THEN conjunct1, rule_format, OF 1]
  have "add ?O ?acc ''tags'' ''b'' = ?acc" by (rule t [THEN conjunct2, rule_format, OF 3])
  moreover have "map_of (add ?O ?acc ''tags'' ''c'') ''tags'' = Some [''a'', ''b'', ''c'']"
    using t [THEN conjunct1, of ?O "''c''"] 2 by simp
  ultimately show ?thesis using 1 2 by simp
qed

section \<open>The order of the keys\<close>

text \<open>
  C7: with \<^verbatim>\<open>sortKeys\<close> true the keys of the returned mapping appear in lexicographic
  order, otherwise in first-discovery order. The code sorts the entries by string comparison
  (line 138) and then builds an ordinary object from them (line 139), which enumerates its
  array-index keys first, in ascending numeric order: flattening \<^verbatim>\<open>{9: 1, 10: 2}\<close> with
  \<^verbatim>\<open>sortKeys\<close> sorts the entries to \<^verbatim>\<open>10, 9\<close> and returns the keys in the order
  \<^verbatim>\<open>9, 10\<close>, which is not lexicographic; flattening \<^verbatim>\<open>[{2: "x"}, {1: "y"}]\<close> discovers
  \<^verbatim>\<open>2\<close> before \<^verbatim>\<open>1\<close> and returns the keys in the order \<^verbatim>\<open>1, 2\<close>.
\<close>

theorem sorted_keys_reordered:
  "build_entries (no_options\<lparr>sortKeys := Some True\<rparr>) [(''9'', [''1'']), (''10'', [''2''])]
     = [(''10'', ''2''), (''9'', ''1'')] \<and>
   flattenToKeyValue (JObject [(''9'', num 1), (''10'', num 2)]) (no_options\<lparr>sortKeys := Some True\<rparr>)
     = Inr [(''9'', ''1''), (''10'', ''2'')] \<and>
   sort [''9'', ''10''] = [''10'', ''9''] \<and>
   \<not> sorted (keys [(''9'', ''1''), (''10'', ''2'')]) \<and>
   flattenToKeyValue (JArray [JObject [(''2'', str ''x'')], JObject [(''1'', str ''y'')]]) no_options
     = Inr [(''1'', ''y''), (''2'', ''x'')] \<and>
   discovery_order no_options (JArray [JObject [(''2'', str ''x'')], JObject [(''1'', str ''y'')]])
     = [''2'', ''1'']"
  by code_simp

section \<open>Keys are not empty\<close>




section \<open>Totality\<close>




section \<open>Empty field names\<close>




end
